theory Spec2Isabelle
  imports Main "HOL-Library.Sublist" "HOL-Library.Word"
begin

unbundle bit_operations_syntax

section \<open>The debug console (fluxripper\_dev.py, class CDCConsole)\<close>

text \<open>
  Exceptions of the Python code are values: \<open>SerialException\<close> is what
  \<^verbatim>\<open>serial.write\<close> and \<^verbatim>\<open>serial.flush\<close> raise, \<open>JSONDecodeError\<close> what
  \<^verbatim>\<open>json.loads\<close> raises on a malformed cache file, \<open>ToolError\<close> what
  \<^verbatim>\<open>subprocess.run\<close> raises when the external tool cannot be started, and
  \<open>Exception\<close> any exception raised by a test body.
\<close>

datatype error = SerialException | JSONDecodeError | ToolError | Exception string

text \<open>
  The serial port and the background reader thread are the environment of \<^verbatim>\<open>send\<close>.
  One \<open>exchange\<close> scripts what the environment does during one call of \<^verbatim>\<open>send\<close> on
  an open port: whether \<^verbatim>\<open>write\<close>/\<^verbatim>\<open>flush\<close> raises, the reading of
  \<^verbatim>\<open>time.time()\<close> from which the deadline is computed, and one entry for each evaluation
  of the loop condition: the clock reading at that point, paired with the outcome of the
  \<^verbatim>\<open>response_queue.get(timeout=0.1)\<close> that follows when the loop body is entered
  (\<open>Some line\<close> for a line the reader thread delivered, \<open>None\<close> for \<^verbatim>\<open>queue.Empty\<close>).
  Clock readings are in milliseconds, so that the 2.0 seconds of the source are 2000.
  A script that ends stands for a target that stays silent until the deadline has passed.
\<close>

record exchange =
  write_fails :: bool
  start_time :: int
  polls :: "(int \<times> string option) list"

text \<open>
  An open \<^verbatim>\<open>serial.Serial\<close> object: the byte strings handed to \<^verbatim>\<open>write\<close> so far, and
  the script of the exchanges to come.
\<close>

record port =
  written :: "string list"
  script :: "exchange list"

text \<open>
  \<^verbatim>\<open>CDCConsole\<close>: \<open>serial\<close> is \<open>None\<close> until \<^verbatim>\<open>connect\<close> and after \<^verbatim>\<open>disconnect\<close>;
  \<open>response_queue\<close> holds the lines queued before a call of \<^verbatim>\<open>send\<close>.
\<close>

record CDCConsole =
  serial :: "port option"
  response_queue :: "string list"

definition silent :: exchange where
  "silent = \<lparr>write_fails = False, start_time = 0, polls = []\<rparr>"

definition next_exchange :: "port \<Rightarrow> exchange" where
  "next_exchange p = (case script p of [] \<Rightarrow> silent | x # _ \<Rightarrow> x)"

definition startswith :: "string \<Rightarrow> string \<Rightarrow> bool" where
  "startswith s p = prefix p s"

text \<open>
  The collection loop of \<^verbatim>\<open>send\<close>:
  \<^verbatim>\<open>while time.time() < deadline:
      try:
          line = self.response_queue.get(timeout=0.1)
          if line.startswith('>'): break
          responses.append(line)
      except queue.Empty: continue
  return responses\<close>
\<close>

fun collect :: "int \<Rightarrow> (int \<times> string option) list \<Rightarrow> string list \<Rightarrow> string list" where
  "collect deadline [] responses = responses"
| "collect deadline ((now, got) # rest) responses =
     (if now < deadline then
        (case got of
           Some line \<Rightarrow>
             if startswith line ''>'' then responses
             else collect deadline rest (responses @ [line])
         | None \<Rightarrow> collect deadline rest responses)
      else responses)"

definition CRLF :: string where
  "CRLF = [CHR 0x0D, CHR 0x0A]"

text \<open>
  \<^verbatim>\<open>send\<close>: nothing happens on a closed console; on an open one the queue is drained,
  the command is written and the response collected.
\<close>

definition send :: "CDCConsole \<Rightarrow> string \<Rightarrow> (error + string list) \<times> CDCConsole" where
  "send self command =
     (case serial self of
        None \<Rightarrow> (Inr [], self)
      | Some p \<Rightarrow>
          (let x = next_exchange p;
               p' = p\<lparr>written := written p @ [command @ CRLF], script := tl (script p)\<rparr>;
               self' = self\<lparr>serial := Some p', response_queue := []\<rparr>
           in if write_fails x then (Inl SerialException, self')
              else (Inr (collect (start_time x + 2000) (polls x) []), self')))"

text \<open>The lines of a script entry list that the reader delivered.\<close>

definition delivered :: "(int \<times> string option) list \<Rightarrow> string list" where
  "delivered ps = concat (map (\<lambda>(t, got). case got of None \<Rightarrow> [] | Some l \<Rightarrow> [l]) ps)"

definition before_deadline :: "int \<Rightarrow> (int \<times> string option) list \<Rightarrow> bool" where
  "before_deadline deadline ps = list_all (\<lambda>(t, got). t < deadline) ps"

definition no_prompt :: "(int \<times> string option) list \<Rightarrow> bool" where
  "no_prompt ps = list_all (\<lambda>l. \<not> startswith l ''>'') (delivered ps)"

text \<open>Concrete consoles used to exercise the theorems below.\<close>

definition demo_exchange :: exchange where
  "demo_exchange = \<lparr>write_fails = False, start_time = 1000,
     polls = [(1010, Some ''OK:00000005''), (1120, None), (1130, Some ''> ''),
              (1140, Some ''late'')]\<rparr>"

definition demo_console :: CDCConsole where
  "demo_console = \<lparr>serial = Some \<lparr>written = [], script = [demo_exchange]\<rparr>,
     response_queue = [''> stale prompt'']\<rparr>"

definition slow_exchange :: exchange where
  "slow_exchange = \<lparr>write_fails = False, start_time = 1000,
     polls = [(1010, Some ''partial''), (2950, None), (3000, Some ''too late'')]\<rparr>"

definition slow_console :: CDCConsole where
  "slow_console = \<lparr>serial = Some \<lparr>written = [], script = [slow_exchange]\<rparr>,
     response_queue = []\<rparr>"


section \<open>Change detection (rtl\_tools.py)\<close>

text \<open>\<^verbatim>\<open>RTLModule\<close>, and a source file as the scan sees it: its path, the stem of its
  name and its content.\<close>

record RTLModule =
  name :: string
  path :: string
  dependencies :: "string list"
  hash :: string

record source_file =
  file_path :: string
  stem :: string
  content :: string

text \<open>
  What the Python code calls but this theory does not look into: \<open>digest\<close> is
  \<^verbatim>\<open>hashlib.sha256(bytes).hexdigest()[:16]\<close>; \<open>find_deps\<close> is the heuristic
  \<^verbatim>\<open>find_dependencies\<close>, whose result no build decision reads; \<open>quick_check\<close> is the
  simulation of one module (\<^verbatim>\<open>RTLWorkflow.quick_check\<close>) and \<open>build\<close> the Vivado run
  (\<^verbatim>\<open>VivadoBuilder.build\<close>), both with the verdict they return or the exception that
  \<^verbatim>\<open>subprocess.run\<close> raises.
\<close>

record tools =
  digest :: "string \<Rightarrow> string"
  find_deps :: "string \<Rightarrow> string list"
  quick_check :: "string \<Rightarrow> error + bool"
  build :: "string list \<Rightarrow> error + bool"

text \<open>
  The persisted cache file \<^verbatim>\<open>.rtl_cache.json\<close>: absent, holding a JSON object from
  names to hashes, or holding text that \<^verbatim>\<open>json.loads\<close> rejects.
\<close>

datatype cache_state = Absent | Stored "string \<rightharpoonup> string" | Malformed

text \<open>The part of the file system that \<^verbatim>\<open>smart_build\<close> reads and writes: the files
  that \<^verbatim>\<open>rglob("*.v")\<close> and \<^verbatim>\<open>rglob("*.sv")\<close> yield, in the order they yield them,
  and the cache file.\<close>

record workspace =
  v_files :: "source_file list"
  sv_files :: "source_file list"
  cache_file :: cache_state

text \<open>
  A Python \<^verbatim>\<open>dict\<close> keeps its keys in insertion order; assigning to a key that is
  present replaces the value in place.
\<close>

fun dict_set :: "('k \<times> 'v) list \<Rightarrow> 'k \<Rightarrow> 'v \<Rightarrow> ('k \<times> 'v) list" where
  "dict_set [] k v = [(k, v)]"
| "dict_set ((k', v') # rest) k v =
     (if k' = k then (k, v) # rest else (k', v') # dict_set rest k v)"

definition get_module_hash :: "tools \<Rightarrow> source_file \<Rightarrow> string" where
  "get_module_hash T f = digest T (content f)"

definition scan_file ::
  "tools \<Rightarrow> source_file \<Rightarrow> (string \<times> RTLModule) list \<Rightarrow> (string \<times> RTLModule) list" where
  "scan_file T f modules =
     dict_set modules (stem f)
       \<lparr>name = stem f, path = file_path f, dependencies = find_deps T (content f),
        hash = get_module_hash T f\<rparr>"

definition scan_rtl_modules :: "tools \<Rightarrow> workspace \<Rightarrow> (string \<times> RTLModule) list" where
  "scan_rtl_modules T fs = fold (scan_file T) (sv_files fs) (fold (scan_file T) (v_files fs) [])"

definition load_cache :: "cache_state \<Rightarrow> error + (string \<rightharpoonup> string)" where
  "load_cache cf =
     (case cf of
        Absent \<Rightarrow> Inr Map.empty
      | Stored prev_hashes \<Rightarrow> Inr prev_hashes
      | Malformed \<Rightarrow> Inl JSONDecodeError)"

definition get_changed_modules ::
  "(string \<times> RTLModule) list \<Rightarrow> cache_state \<Rightarrow> error + string list" where
  "get_changed_modules modules cf =
     (case load_cache cf of
        Inl e \<Rightarrow> Inl e
      | Inr prev_hashes \<Rightarrow>
          Inr (map fst
                 (filter (\<lambda>(name, module).
                            prev_hashes name = None \<or> prev_hashes name \<noteq> Some (hash module))
                    modules)))"





section \<open>Register access (fluxripper\_dev.py, class CDCConsole, continued)\<close>

text \<open>\<^verbatim>\<open>'\n'.join(lines)\<close> and \<^verbatim>\<open>str.split(sep)\<close> for a separator of one character.\<close>

fun join :: "string \<Rightarrow> string list \<Rightarrow> string" where
  "join sep [] = []"
| "join sep [x] = x"
| "join sep (x # y # zs) = x @ sep @ join sep (y # zs)"

fun py_split :: "char \<Rightarrow> string \<Rightarrow> string list" where
  "py_split c [] = [[]]"
| "py_split c (x # xs) =
     (if x = c then [] # py_split c xs
      else (case py_split c xs of [] \<Rightarrow> [[x]] | y # ys \<Rightarrow> (x # y) # ys))"

definition contains :: "string \<Rightarrow> string \<Rightarrow> bool" where
  "contains s p = sublist p s"

text \<open>
  \<^verbatim>\<open>f"{n:08x}"\<close>: lowercase hexadecimal, zero-padded to eight characters, the sign
  of a negative number counted in the width and placed before the zeros.
\<close>

definition hex_digit :: "nat \<Rightarrow> char" where
  "hex_digit d = ''0123456789abcdef'' ! (d mod 16)"

fun hex :: "nat \<Rightarrow> string" where
  "hex n = (if n < 16 then [hex_digit n] else hex (n div 16) @ [hex_digit (n mod 16)])"

definition zfill :: "nat \<Rightarrow> string \<Rightarrow> string" where
  "zfill w s = replicate (w - length s) (CHR ''0'') @ s"

definition fmt_08x :: "int \<Rightarrow> string" where
  "fmt_08x n = (if n < 0 then ''-'' @ zfill 7 (hex (nat (- n))) else zfill 8 (hex (nat n)))"

definition command :: "CDCConsole \<Rightarrow> string \<Rightarrow> (error + string) \<times> CDCConsole" where
  "command self cmd =
     (case send self cmd of
        (Inl e, s) \<Rightarrow> (Inl e, s)
      | (Inr lines, s) \<Rightarrow> (Inr (join [CHR 0x0A] lines), s))"

text \<open>
  \<^verbatim>\<open>read_memory\<close>. The parameter \<open>int16\<close> stands for the Python builtin applied to the
  field after the first colon, \<^verbatim>\<open>int(field.strip(), 16)\<close>, with \<open>None\<close> for the
  \<^verbatim>\<open>ValueError\<close> it raises on text that is no hexadecimal number; the bare
  \<^verbatim>\<open>except\<close> of the source turns that exception into the result \<^verbatim>\<open>None\<close>.
\<close>

definition read_memory ::
  "(string \<Rightarrow> int option) \<Rightarrow> CDCConsole \<Rightarrow> int \<Rightarrow> (error + int option) \<times> CDCConsole" where
  "read_memory int16 self addr =
     (case command self (''dbg r '' @ fmt_08x addr) of
        (Inl e, s) \<Rightarrow> (Inl e, s)
      | (Inr response, s) \<Rightarrow>
          (Inr (if startswith response ''OK:'' then
                  (case py_split (CHR '':'') response of
                     _ # field # _ \<Rightarrow> int16 field
                   | _ \<Rightarrow> None)
                else None), s))"

definition write_memory :: "CDCConsole \<Rightarrow> int \<Rightarrow> int \<Rightarrow> (error + bool) \<times> CDCConsole" where
  "write_memory self addr data =
     (case command self (''dbg w '' @ fmt_08x addr @ '' '' @ fmt_08x data) of
        (Inl e, s) \<Rightarrow> (Inl e, s)
      | (Inr response, s) \<Rightarrow> (Inr (contains response ''OK''), s))"

text \<open>
  \<^verbatim>\<open>write_block\<close>, first loop: the chunk \<^verbatim>\<open>data[i:i+4]\<close> for \<^verbatim>\<open>i\<close> in
  \<^verbatim>\<open>range(0, len(data), 4)\<close>, padded with zero bytes to length four and read as a
  little-endian number.
\<close>

type_synonym byte = "8 word"

definition pad4 :: "byte list \<Rightarrow> byte list" where
  "pad4 chunk = chunk @ replicate (4 - length chunk) 0"

fun from_bytes_little :: "byte list \<Rightarrow> int" where
  "from_bytes_little [] = 0"
| "from_bytes_little (b # bs) = uint b + 256 * from_bytes_little bs"

function words_from :: "nat \<Rightarrow> byte list \<Rightarrow> int list" where
  "words_from i data =
     (if i < length data
      then from_bytes_little (pad4 (take 4 (drop i data))) # words_from (i + 4) data
      else [])"
  by pat_completeness auto
termination
  by (relation "measure (\<lambda>(i, data). length data - i)") auto

declare words_from.simps [simp del]

text \<open>
  Second loop: \<^verbatim>\<open>for i, word in enumerate(words)\<close>, returning \<^verbatim>\<open>False\<close> at the
  first word whose write is not acknowledged; an exception of the transport propagates.
\<close>

fun write_words :: "CDCConsole \<Rightarrow> int \<Rightarrow> nat \<Rightarrow> int list \<Rightarrow> (error + bool) \<times> CDCConsole" where
  "write_words self addr i [] = (Inr True, self)"
| "write_words self addr i (word # rest) =
     (case write_memory self (addr + int i * 4) word of
        (Inl e, s) \<Rightarrow> (Inl e, s)
      | (Inr ok, s) \<Rightarrow> if ok then write_words s addr (Suc i) rest else (Inr False, s))"

definition write_block :: "CDCConsole \<Rightarrow> int \<Rightarrow> byte list \<Rightarrow> (error + bool) \<times> CDCConsole" where
  "write_block self addr data = write_words self addr 0 (words_from 0 data)"

definition get_layer ::
  "(string \<Rightarrow> int option) \<Rightarrow> CDCConsole \<Rightarrow> (error + int) \<times> CDCConsole" where
  "get_layer int16 self =
     (case read_memory int16 self 0x44A80074 of
        (Inl e, s) \<Rightarrow> (Inl e, s)
      | (Inr value, s) \<Rightarrow> (Inr (case value of Some v \<Rightarrow> v AND 0xF | None \<Rightarrow> - 1), s))"

section \<open>The test runner (fluxripper\_dev.py, class TestRunner)\<close>

datatype TestResult = PASS | FAIL | SKIP | ERROR

text \<open>
  \<^verbatim>\<open>TestCase\<close>. A test function acts on the console of the runner it is given, as every
  test function of the repository does; it returns a result or raises. The timeout is in
  milliseconds.
\<close>

record TestCase =
  name :: string
  description :: string
  layer_required :: int
  test_fn :: "CDCConsole \<Rightarrow> (error + TestResult) \<times> CDCConsole"
  timeout :: int

record TestRunner =
  console :: CDCConsole
  tests :: "TestCase list"
  results :: "string \<rightharpoonup> TestResult"

definition register :: "TestRunner \<Rightarrow> TestCase \<Rightarrow> TestRunner" where
  "register self test = self\<lparr>tests := tests self @ [test]\<rparr>"

text \<open>
  The loop of \<^verbatim>\<open>run_all\<close> over \<^verbatim>\<open>self.tests\<close>, with the layer read before the loop.
\<close>

fun run_tests :: "int \<Rightarrow> int \<Rightarrow> TestCase list \<Rightarrow> TestRunner \<Rightarrow> TestRunner" where
  "run_tests current_layer min_layer [] self = self"
| "run_tests current_layer min_layer (test # rest) self =
     (if layer_required test > current_layer then
        run_tests current_layer min_layer rest
          (self\<lparr>results := (results self)(name test \<mapsto> SKIP)\<rparr>)
      else if layer_required test < min_layer then
        run_tests current_layer min_layer rest self
      else
        (case test_fn test (console self) of
           (Inr result, c) \<Rightarrow>
             run_tests current_layer min_layer rest
               (self\<lparr>console := c, results := (results self)(name test \<mapsto> result)\<rparr>)
         | (Inl e, c) \<Rightarrow>
             run_tests current_layer min_layer rest
               (self\<lparr>console := c, results := (results self)(name test \<mapsto> ERROR)\<rparr>)))"

text \<open>
  \<^verbatim>\<open>run_all\<close> returns \<^verbatim>\<open>self.results\<close>, the mapping held by the runner; an exception
  of \<^verbatim>\<open>get_layer\<close> is not caught.
\<close>

definition run_all ::
  "(string \<Rightarrow> int option) \<Rightarrow> TestRunner \<Rightarrow> int
     \<Rightarrow> (error + (string \<rightharpoonup> TestResult)) \<times> TestRunner" where
  "run_all int16 self min_layer =
     (case get_layer int16 (console self) of
        (Inl e, c) \<Rightarrow> (Inl e, self\<lparr>console := c\<rparr>)
      | (Inr current_layer, c) \<Rightarrow>
          (let self' = run_tests current_layer min_layer (tests self) (self\<lparr>console := c\<rparr>)
           in (Inr (results self'), self')))"


section \<open>Vocabulary for the block write\<close>

text \<open>
  The byte of \<open>data\<close> at an offset, zero beyond its end; the verdict of one scripted
  exchange on a word write (the write goes through and the collected response contains
  \<open>OK\<close>); and the byte string that \<open>write_memory\<close> hands to the port.
\<close>

definition byte_at :: "byte list \<Rightarrow> nat \<Rightarrow> int" where
  "byte_at data k = (if k < length data then uint (data ! k) else 0)"

definition acknowledged :: "exchange \<Rightarrow> bool" where
  "acknowledged x =
     (\<not> write_fails x \<and>
      contains (join [CHR 0x0A] (collect (start_time x + 2000) (polls x) [])) ''OK'')"

definition write_command :: "int \<Rightarrow> int \<Rightarrow> string" where
  "write_command addr data = ''dbg w '' @ fmt_08x addr @ '' '' @ fmt_08x data @ CRLF"

text \<open>The commands of the word writes number \<open>i\<close>, \<open>i + 1\<close>, ... for the first \<open>m\<close>
  words of \<open>ws\<close>.\<close>

definition issued :: "int \<Rightarrow> nat \<Rightarrow> int list \<Rightarrow> nat \<Rightarrow> string list" where
  "issued addr i ws m = map (\<lambda>j. write_command (addr + int (i + j) * 4) (ws ! j)) [0..<m]"


section \<open>The background RTL build (fluxripper\_dev.py, class RTLBuilder)\<close>

text \<open>
  A worker thread has been started and has not yet run (\<open>Spawned\<close>), is inside
  \<^verbatim>\<open>_build_worker\<close> (\<open>Working\<close>), or has returned (\<open>Finished\<close>);
  \<^verbatim>\<open>Thread.is_alive()\<close> holds in the first two phases. What the Vivado run of a worker
  ends with: exit code 0, with the source hash that \<^verbatim>\<open>get_source_hash\<close> then computes;
  another exit code; \<^verbatim>\<open>subprocess.TimeoutExpired\<close>; or another exception, with its text.
\<close>

datatype phase = Spawned | Working | Finished

datatype outcome = Exit0 string | ExitNonzero | TimeoutExpired | Raised string

text \<open>
  \<^verbatim>\<open>RTLBuilder\<close>. The field \<open>build_thread\<close> refers to a thread by its index in
  \<open>threads\<close>, the list of all worker threads started so far; \<open>bitstream_ready\<close> is the
  \<^verbatim>\<open>threading.Event\<close>; \<open>printed\<close> collects what \<^verbatim>\<open>start_build\<close> prints (the
  progress messages of the worker are left out).
\<close>

record RTLBuilder =
  build_thread :: "nat option"
  build_status :: string
  last_hash :: "string option"
  bitstream_ready :: bool
  threads :: "phase list"
  printed :: "string list"

definition init :: RTLBuilder where
  "init = \<lparr>build_thread = None, build_status = ''idle'', last_hash = None,
     bitstream_ready = False, threads = [], printed = []\<rparr>"

definition is_alive :: "RTLBuilder \<Rightarrow> nat \<Rightarrow> bool" where
  "is_alive self t = (t < length (threads self) \<and> threads self ! t \<noteq> Finished)"

definition is_building :: "RTLBuilder \<Rightarrow> bool" where
  "is_building self = (case build_thread self of None \<Rightarrow> False | Some t \<Rightarrow> is_alive self t)"

definition start_build :: "RTLBuilder \<Rightarrow> RTLBuilder" where
  "start_build self =
     (if is_building self
      then self\<lparr>printed := printed self @ [''RTL build already in progress'']\<rparr>
      else self\<lparr>bitstream_ready := False,
                build_thread := Some (length (threads self)),
                threads := threads self @ [Spawned]\<rparr>)"

text \<open>
  \<^verbatim>\<open>_build_worker\<close> as run by thread \<open>t\<close>, in two steps around the call of
  \<^verbatim>\<open>subprocess.run\<close>, which blocks for the duration of the build: the assignment of
  \<^verbatim>\<open>"running"\<close> before it, and the branch taken on its outcome after it, with which the
  thread ends.
\<close>

definition worker_begin :: "nat \<Rightarrow> RTLBuilder \<Rightarrow> RTLBuilder" where
  "worker_begin t self =
     (if t < length (threads self) \<and> threads self ! t = Spawned
      then self\<lparr>build_status := ''running'', threads := (threads self)[t := Working]\<rparr>
      else self)"

definition worker_finish :: "nat \<Rightarrow> outcome \<Rightarrow> RTLBuilder \<Rightarrow> RTLBuilder" where
  "worker_finish t out self =
     (if t < length (threads self) \<and> threads self ! t = Working
      then (case out of
              Exit0 h \<Rightarrow> self\<lparr>last_hash := Some h, build_status := ''success'',
                              bitstream_ready := True\<rparr>
            | ExitNonzero \<Rightarrow> self\<lparr>build_status := ''failed''\<rparr>
            | TimeoutExpired \<Rightarrow> self\<lparr>build_status := ''timeout''\<rparr>
            | Raised e \<Rightarrow> self\<lparr>build_status := ''error: '' @ e\<rparr>)
           \<lparr>threads := (threads self)[t := Finished]\<rparr>
      else self)"

text \<open>The lifetime of a builder: calls of \<^verbatim>\<open>start_build\<close> interleaved with the steps
  of its worker threads.\<close>

datatype event = StartBuild | WorkerBegin nat | WorkerFinish nat outcome

fun step :: "event \<Rightarrow> RTLBuilder \<Rightarrow> RTLBuilder" where
  "step StartBuild self = start_build self"
| "step (WorkerBegin t) self = worker_begin t self"
| "step (WorkerFinish t out) self = worker_finish t out self"

definition run :: "event list \<Rightarrow> RTLBuilder \<Rightarrow> RTLBuilder" where
  "run evs self = fold step evs self"



text \<open>Every thread that is alive is the one that \<open>build_thread\<close> refers to.\<close>

definition single_worker :: "RTLBuilder \<Rightarrow> bool" where
  "single_worker s = (\<forall>i. is_alive s i \<longrightarrow> build_thread s = Some i)"


section \<open>Test functions of the repository and concrete runners\<close>

text \<open>
  \<^verbatim>\<open>test_pll_locked\<close> and \<^verbatim>\<open>test_fdc_ready\<close> of fluxripper\_dev.py.
\<close>

definition test_pll_locked ::
  "(string \<Rightarrow> int option) \<Rightarrow> CDCConsole \<Rightarrow> (error + TestResult) \<times> CDCConsole" where
  "test_pll_locked int16 c =
     (case read_memory int16 c 0x40020000 of
        (Inl e, s) \<Rightarrow> (Inl e, s)
      | (Inr None, s) \<Rightarrow> (Inr ERROR, s)
      | (Inr (Some status), s) \<Rightarrow>
          (if status AND 0x1F \<noteq> 0x1F then (Inr FAIL, s) else (Inr PASS, s)))"

definition test_fdc_ready ::
  "(string \<Rightarrow> int option) \<Rightarrow> CDCConsole \<Rightarrow> (error + TestResult) \<times> CDCConsole" where
  "test_fdc_ready int16 c =
     (case read_memory int16 c 0x44100000 of
        (Inl e, s) \<Rightarrow> (Inl e, s)
      | (Inr None, s) \<Rightarrow> (Inr ERROR, s)
      | (Inr (Some status), s) \<Rightarrow> (Inr PASS, s))"

text \<open>The values of \<^verbatim>\<open>int(field.strip(), 16)\<close> on the fields that the scripts below use.\<close>

definition demo_int16 :: "string \<Rightarrow> int option" where
  "demo_int16 field =
     (if field = ''00000005'' then Some 5
      else if field = ''0000001f'' then Some 31
      else None)"

definition reply :: "int \<Rightarrow> string \<Rightarrow> exchange" where
  "reply t line = \<lparr>write_fails = False, start_time = t,
     polls = [(t + 10, Some line), (t + 20, Some ''> '')]\<rparr>"


definition layer5_console :: CDCConsole where
  "layer5_console = \<lparr>serial = Some \<lparr>written = [],
       script = [reply 0 ''OK:00000005'', reply 100 ''OK:0000001f'', reply 200 ''OK:00000005'']\<rparr>,
     response_queue = []\<rparr>"

definition pll_locked :: TestCase where
  "pll_locked = \<lparr>name = ''pll_locked'', description = ''All PLLs locked'',
     layer_required = 4, test_fn = test_pll_locked demo_int16, timeout = 1000\<rparr>"

definition fdc_ready :: TestCase where
  "fdc_ready = \<lparr>name = ''fdc_ready'', description = ''FDC accessible'',
     layer_required = 7, test_fn = test_fdc_ready demo_int16, timeout = 1000\<rparr>"

definition demo_runner :: "CDCConsole \<Rightarrow> TestRunner" where
  "demo_runner c = \<lparr>console = c, tests = [pll_locked, fdc_ready], results = Map.empty\<rparr>"

text \<open>The outcome that a call of \<open>run_all\<close> returned for a test name, and the commands
  written to the port of the runner it left.\<close>

definition returned ::
  "(error + (string \<rightharpoonup> TestResult)) \<times> TestRunner \<Rightarrow> string \<Rightarrow> TestResult option" where
  "returned out n = (case fst out of Inl e \<Rightarrow> None | Inr res \<Rightarrow> res n)"

definition commands_written :: "CDCConsole \<Rightarrow> string list" where
  "commands_written c = (case serial c of None \<Rightarrow> [] | Some p \<Rightarrow> written p)"

text \<open>The console \<open>layer5_console\<close> after one, two and three exchanges, and the runner
  that the first run leaves.\<close>

definition layer5_console1 :: CDCConsole where
  "layer5_console1 = \<lparr>serial = Some \<lparr>written = [''dbg r 44a80074'' @ CRLF],
       script = [reply 100 ''OK:0000001f'', reply 200 ''OK:00000005'']\<rparr>,
     response_queue = []\<rparr>"

definition layer5_console2 :: CDCConsole where
  "layer5_console2 = \<lparr>serial = Some \<lparr>written =
         [''dbg r 44a80074'' @ CRLF, ''dbg r 40020000'' @ CRLF],
       script = [reply 200 ''OK:00000005'']\<rparr>,
     response_queue = []\<rparr>"




text \<open>A console whose third exchange is not acknowledged.\<close>

definition block_console :: CDCConsole where
  "block_console = \<lparr>serial = Some \<lparr>written = [],
       script = [reply 0 ''OK'', reply 100 ''OK'', reply 200 ''ERR'', reply 300 ''OK'']\<rparr>,
     response_queue = []\<rparr>"


section \<open>A concrete source tree\<close>

text \<open>
  Three tracked files, a cache that knows \<open>top\<close> with its current hash, \<open>uart\<close> with
  an older one and a module \<open>gone\<close> whose file was deleted; simulations pass and the
  Vivado run reports failure. For the examples the digest of a content is the content.
\<close>

definition demo_tools :: tools where
  "demo_tools = \<lparr>digest = (\<lambda>c. c), find_deps = (\<lambda>c. []),
     quick_check = (\<lambda>m. Inr True), build = (\<lambda>changed. Inr False)\<rparr>"

definition demo_cache :: "string \<rightharpoonup> string" where
  "demo_cache = [''top'' \<mapsto> ''t1'', ''uart'' \<mapsto> ''u0'', ''gone'' \<mapsto> ''g1'']"

definition demo_tree :: workspace where
  "demo_tree = \<lparr>v_files =
       [\<lparr>file_path = ''rtl/top.v'', stem = ''top'', content = ''t1''\<rparr>,
        \<lparr>file_path = ''rtl/uart.v'', stem = ''uart'', content = ''u1''\<rparr>],
     sv_files = [\<lparr>file_path = ''rtl/fifo.sv'', stem = ''fifo'', content = ''f1''\<rparr>],
     cache_file = Stored demo_cache\<rparr>"

text \<open>The same tree after \<open>top.v\<close> has been edited, listed in another order.\<close>

definition demo_tree_edited :: workspace where
  "demo_tree_edited = \<lparr>v_files =
       [\<lparr>file_path = ''rtl/uart.v'', stem = ''uart'', content = ''u1''\<rparr>,
        \<lparr>file_path = ''rtl/top.v'', stem = ''top'', content = ''t2''\<rparr>],
     sv_files = [\<lparr>file_path = ''rtl/fifo.sv'', stem = ''fifo'', content = ''f1''\<rparr>],
     cache_file = Stored demo_cache\<rparr>"




section \<open>Properties of the console\<close>

lemma collect_prefix:
  "before_deadline d pre \<Longrightarrow> no_prompt pre \<Longrightarrow>
   collect d (pre @ rest) acc = collect d rest (acc @ delivered pre)"
proof (induction pre arbitrary: acc)
  case Nil
  then show ?case by (simp add: delivered_def)
next
  case (Cons a pre)
  obtain t got where a: "a = (t, got)" by (cases a)
  from Cons.prems have bd: "before_deadline d pre" and t: "t < d"
    by (simp_all add: before_deadline_def a)
  show ?case
  proof (cases got)
    case None
    with Cons.prems have np: "no_prompt pre"
      by (simp add: no_prompt_def delivered_def a)
    show ?thesis
      using Cons.IH [OF bd np] t None by (simp add: a delivered_def)
  next
    case (Some l)
    with Cons.prems have np: "no_prompt pre" and l: "\<not> startswith l ''>''"
      by (simp_all add: no_prompt_def delivered_def a)
    show ?thesis
      using Cons.IH [OF bd np, of "acc @ [l]"] t Some l by (simp add: a delivered_def)
  qed
qed

text \<open>
  C2. On a console whose transport handle is not open, \<open>send\<close> returns the empty list
  as a normal result (no exception), and the console is returned as it was: nothing is
  written, no exchange with the environment (no poll, no clock reading) takes place.
\<close>

theorem send_closed:
  "serial self = None \<Longrightarrow> send self cmd = (Inr [], self)"
  by (simp add: send_def)

theorem send_closed_witness:
  "serial \<lparr>serial = None, response_queue = [''stale'']\<rparr> = None \<and>
   send \<lparr>serial = None, response_queue = [''stale'']\<rparr> ''dbg status''
     = (Inr [], \<lparr>serial = None, response_queue = [''stale'']\<rparr>)"
  using send_closed [of "\<lparr>serial = None, response_queue = [''stale'']\<rparr>" "''dbg status''"]
  by simp

text \<open>
  C7. On an open console whose write succeeds, let the entry \<open>(t, got)\<close> be the first
  one of the exchange at which either the clock has reached the deadline
  (\<open>start_time + 2000\<close>) or the line delivered begins with the prompt marker \<open>>\<close>;
  all entries \<open>pre\<close> before it are read before the deadline and deliver no prompt line.
  Then \<open>send\<close> returns, as a normal result, exactly the lines delivered in \<open>pre\<close> in
  their order: the prompt line is not part of the result, nothing after it is read, and
  reaching the deadline first yields the lines collected so far, not an error.
\<close>

theorem send_collects:
  assumes "serial self = Some p" and "script p = x # xs" and "\<not> write_fails x"
    and "polls x = pre @ (t, got) # rest"
    and "before_deadline (start_time x + 2000) pre" and "no_prompt pre"
    and "start_time x + 2000 \<le> t \<or> (\<exists>l. got = Some l \<and> startswith l ''>'')"
  shows "fst (send self cmd) = Inr (delivered pre)"
proof -
  let ?d = "start_time x + 2000"
  have stop: "collect ?d ((t, got) # rest) (delivered pre) = delivered pre"
    using assms(7) by (cases "t < ?d") auto
  have "collect ?d (polls x) [] = collect ?d ((t, got) # rest) ([] @ delivered pre)"
    unfolding assms(4) using assms(5,6) by (rule collect_prefix)
  with stop have "collect ?d (polls x) [] = delivered pre" by simp
  then show ?thesis
    using assms(1,2,3) by (simp add: send_def next_exchange_def Let_def)
qed

text \<open>
  One exchange that ends with a prompt line, and one in which the deadline passes first.
\<close>

theorem send_collects_witness:
  "fst (send demo_console ''dbg r 44a80074'') = Inr [''OK:00000005''] \<and>
   fst (send slow_console ''dbg status'') = Inr [''partial'']"
proof -
  have "fst (send demo_console ''dbg r 44a80074'')
        = Inr (delivered [(1010, Some ''OK:00000005''), (1120, None)])"
  proof (rule send_collects)
    show "serial demo_console = Some \<lparr>written = [], script = [demo_exchange]\<rparr>"
      by (simp add: demo_console_def)
    show "script \<lparr>written = [], script = [demo_exchange]\<rparr> = demo_exchange # []"
      by simp
    show "\<not> write_fails demo_exchange"
      by (simp add: demo_exchange_def)
    show "polls demo_exchange = [(1010, Some ''OK:00000005''), (1120, None)]
            @ (1130, Some ''> '') # [(1140, Some ''late'')]"
      by (simp add: demo_exchange_def)
    show "before_deadline (start_time demo_exchange + 2000)
            [(1010, Some ''OK:00000005''), (1120, None)]"
      by (simp add: before_deadline_def demo_exchange_def)
    show "no_prompt [(1010, Some ''OK:00000005''), (1120, None)]"
      by (simp add: no_prompt_def delivered_def startswith_def)
    show "start_time demo_exchange + 2000 \<le> 1130
            \<or> (\<exists>l. Some ''> '' = Some l \<and> startswith l ''>'')"
      by (simp add: startswith_def)
  qed
  then have prompt: "fst (send demo_console ''dbg r 44a80074'') = Inr [''OK:00000005'']"
    by (simp add: delivered_def)
  have "fst (send slow_console ''dbg status'')
        = Inr (delivered [(1010, Some ''partial''), (2950, None)])"
  proof (rule send_collects)
    show "serial slow_console = Some \<lparr>written = [], script = [slow_exchange]\<rparr>"
      by (simp add: slow_console_def)
    show "script \<lparr>written = [], script = [slow_exchange]\<rparr> = slow_exchange # []"
      by simp
    show "\<not> write_fails slow_exchange"
      by (simp add: slow_exchange_def)
    show "polls slow_exchange = [(1010, Some ''partial''), (2950, None)]
            @ (3000, Some ''too late'') # []"
      by (simp add: slow_exchange_def)
    show "before_deadline (start_time slow_exchange + 2000)
            [(1010, Some ''partial''), (2950, None)]"
      by (simp add: before_deadline_def slow_exchange_def)
    show "no_prompt [(1010, Some ''partial''), (2950, None)]"
      by (simp add: no_prompt_def delivered_def startswith_def)
    show "start_time slow_exchange + 2000 \<le> 3000
            \<or> (\<exists>l. Some ''too late'' = Some l \<and> startswith l ''>'')"
      by (simp add: slow_exchange_def)
  qed
  then have deadline: "fst (send slow_console ''dbg status'') = Inr [''partial'']"
    by (simp add: delivered_def)
  from prompt deadline show ?thesis by simp
qed

section \<open>Properties of the layer query\<close>






lemma get_layer_snd:
  "snd (get_layer int16 self) = snd (read_memory int16 self 0x44A80074)"
  by (simp add: get_layer_def split: prod.splits sum.splits)







section \<open>Properties of the block write\<close>

lemma from_bytes_chunk:
  "from_bytes_little (pad4 (take 4 xs)) =
     byte_at xs 0 + 256 * byte_at xs 1 + 65536 * byte_at xs 2 + 16777216 * byte_at xs 3"
proof (cases xs)
  case Nil
  then show ?thesis by (simp add: pad4_def byte_at_def numeral_eq_Suc)
next
  case (Cons a as)
  show ?thesis
  proof (cases as)
    case Nil
    with Cons show ?thesis by (simp add: pad4_def byte_at_def numeral_eq_Suc)
  next
    case (Cons b bs)
    note c2 = this
    show ?thesis
    proof (cases bs)
      case Nil
      with c2 \<open>xs = a # as\<close> show ?thesis by (simp add: pad4_def byte_at_def numeral_eq_Suc)
    next
      case (Cons c cs)
      with c2 \<open>xs = a # as\<close> show ?thesis
        by (cases cs) (simp_all add: pad4_def byte_at_def numeral_eq_Suc)
    qed
  qed
qed

lemma byte_at_drop: "byte_at (drop i data) j = byte_at data (i + j)"
  by (auto simp: byte_at_def)

lemma chunk_count:
  assumes "i < length (data :: 'a list)"
  shows "(length data - i + 3) div 4 = Suc ((length data - (i + 4) + 3) div 4)"
proof -
  define m where "m = length data - i"
  have pos: "0 < m" and sub: "length data - (i + 4) = m - 4"
    using assms by (simp_all add: m_def)
  have "(m + 3) div 4 = Suc ((m - 4 + 3) div 4)"
  proof (cases "4 \<le> m")
    case True
    then have "m + 3 = (m - 4 + 3) + 4" by simp
    then have "(m + 3) div 4 = ((m - 4 + 3) + 4) div 4" by simp
    also have "\<dots> = Suc ((m - 4 + 3) div 4)" by simp
    finally show ?thesis .
  next
    case False
    with pos have "m = 1 \<or> m = 2 \<or> m = 3" by linarith
    then show ?thesis by auto
  qed
  then show ?thesis by (simp only: sub m_def [symmetric])
qed

lemma words_from_eq:
  "words_from i data =
     map (\<lambda>k. from_bytes_little (pad4 (take 4 (drop (i + 4 * k) data))))
       [0..<(length data - i + 3) div 4]"
proof (induction i data rule: words_from.induct)
  case (1 i data)
  show ?case
  proof (cases "i < length data")
    case False
    then show ?thesis by (simp add: words_from.simps [of i data])
  next
    case True
    then have n: "(length data - i + 3) div 4 = Suc ((length data - (i + 4) + 3) div 4)"
      by (rule chunk_count)
    have "words_from i data
            = from_bytes_little (pad4 (take 4 (drop i data))) # words_from (i + 4) data"
      using True by (simp add: words_from.simps [of i data])
    also have "words_from (i + 4) data =
        map (\<lambda>k. from_bytes_little (pad4 (take 4 (drop (i + 4 + 4 * k) data))))
          [0..<(length data - (i + 4) + 3) div 4]"
      using True by (rule "1.IH")
    finally show ?thesis
      unfolding n by (simp add: map_upt_Suc add.assoc del: upt_Suc)
  qed
qed

lemma length_words_from: "length (words_from 0 data) = (length data + 3) div 4"
  by (simp add: words_from_eq)

lemma nth_words_from:
  assumes "i < length (words_from 0 data)"
  shows "words_from 0 data ! i =
           byte_at data (4 * i) + 256 * byte_at data (4 * i + 1)
             + 65536 * byte_at data (4 * i + 2) + 16777216 * byte_at data (4 * i + 3)"
proof -
  from assms have "i < (length data + 3) div 4"
    by (simp add: length_words_from)
  then have "words_from 0 data ! i = from_bytes_little (pad4 (take 4 (drop (4 * i) data)))"
    by (simp add: words_from_eq)
  then show ?thesis
    by (simp add: from_bytes_chunk byte_at_drop)
qed

lemma words_from_empty: "words_from 0 data = [] \<longleftrightarrow> data = []"
  by (cases data) (simp_all add: words_from.simps [of 0])

lemma not_acknowledged_silent: "\<not> acknowledged silent"
  by (simp add: acknowledged_def silent_def contains_def)

lemma write_ok_silent: "\<not> write_fails silent"
  by (simp add: silent_def)

lemma write_memory_open:
  "serial self = Some p \<Longrightarrow>
   write_memory self addr d =
     (if write_fails (next_exchange p) then Inl SerialException
      else Inr (acknowledged (next_exchange p)),
      self\<lparr>serial := Some (p\<lparr>written := written p @ [write_command addr d],
                               script := tl (script p)\<rparr>),
           response_queue := []\<rparr>)"
  by (simp add: write_memory_def command_def send_def Let_def acknowledged_def write_command_def)

lemma write_memory_closed:
  "serial self = None \<Longrightarrow> write_memory self addr d = (Inr False, self)"
  by (simp add: write_memory_def command_def send_def contains_def)

lemma issued_Suc:
  "issued addr i (w # ws) (Suc m) = write_command (addr + int i * 4) w # issued addr (Suc i) ws m"
  by (simp add: issued_def map_upt_Suc algebra_simps del: upt_Suc)

lemma write_words_open:
  "serial self = Some p \<Longrightarrow>
   (let k = length (takeWhile acknowledged (take (length ws) (script p)));
        m = min (Suc k) (length ws)
    in fst (write_words self addr i ws) =
         (if k = length ws then Inr True
          else if k < length (script p) \<and> write_fails (script p ! k) then Inl SerialException
          else Inr False) \<and>
       serial (snd (write_words self addr i ws)) =
         Some (p\<lparr>written := written p @ issued addr i ws m, script := drop m (script p)\<rparr>))"
proof (induction ws arbitrary: self p i)
  case Nil
  then show ?case by (simp add: issued_def)
next
  case (Cons w ws)
  let ?p' = "p\<lparr>written := written p @ [write_command (addr + int i * 4) w],
                  script := tl (script p)\<rparr>"
  let ?self' = "self\<lparr>serial := Some ?p', response_queue := []\<rparr>"
  note wm = write_memory_open [OF Cons.prems, of "addr + int i * 4" w]
  show ?case
  proof (cases "script p")
    case Nil
    then show ?thesis
      using wm by (simp add: next_exchange_def not_acknowledged_silent write_ok_silent issued_def)
  next
    case (Cons x xs)
    note sc = this
    show ?thesis
    proof (cases "acknowledged x")
      case False
      then show ?thesis
        using wm sc by (auto simp: next_exchange_def issued_def acknowledged_def)
    next
      case True
      then have nf: "\<not> write_fails x" by (simp add: acknowledged_def)
      have s': "serial ?self' = Some ?p'" by simp
      have step: "write_words self addr i (w # ws) = write_words ?self' addr (Suc i) ws"
        using wm sc True nf by (simp add: next_exchange_def)
      note ih = Cons.IH [OF s', of "Suc i"]
      show ?thesis
        unfolding step using ih sc True
        by (simp add: Let_def issued_Suc del: issued_def)
    qed
  qed
qed

lemma takeWhile_full:
  "length (takeWhile P (take n xs)) = n \<longleftrightarrow> n \<le> length xs \<and> list_all P (take n xs)"
proof
  assume a: "length (takeWhile P (take n xs)) = n"
  have le: "length (takeWhile P (take n xs)) \<le> length (take n xs)"
    by (rule length_takeWhile_le)
  with a have n: "n \<le> length xs" by simp
  with a have "length (takeWhile P (take n xs)) = length (take n xs)" by simp
  then have "takeWhile P (take n xs) = take n xs"
    by (metis takeWhile_eq_take take_all order_refl)
  then have "list_all P (take n xs)"
    by (simp add: takeWhile_eq_all_conv list_all_iff)
  with n show "n \<le> length xs \<and> list_all P (take n xs)" by simp
next
  assume "n \<le> length xs \<and> list_all P (take n xs)"
  then have tw: "takeWhile P (take n xs) = take n xs" and len: "length (take n xs) = n"
    by (simp_all add: takeWhile_eq_all_conv list_all_iff)
  show "length (takeWhile P (take n xs)) = n" unfolding tw by (rule len)
qed

lemma write_words_closed:
  "serial self = None \<Longrightarrow> write_words self addr i ws = (Inr (ws = []), self)"
  by (cases ws) (simp_all add: write_memory_closed)

text \<open>
  C6. \<open>write_block\<close> turns the bytes into \<open>(length data + 3) div 4\<close> words, word
  \<open>i\<close> being the little-endian value of bytes \<open>4i .. 4i+3\<close> with zero for the bytes
  beyond the end of the data. On an open port each word write takes one exchange of the
  script. With \<open>k\<close> the number of leading word writes that are acknowledged, the port has
  received exactly the write commands of the words \<open>0 .. k\<close> (all of them when \<open>k\<close> is the
  number of words), word \<open>j\<close> at address \<open>addr + 4j\<close>, in this order, and the exchanges
  of the words after the first failure are not consumed. The result is \<open>True\<close> exactly
  when every word write was acknowledged; otherwise it is \<open>False\<close>, or the exception of
  the transport when the failing write raised. On a closed console every word write
  fails without any I/O, so the result is \<open>True\<close> for empty data only.
\<close>

theorem write_block_words:
  "(let ws = words_from 0 data in
     length ws = (length data + 3) div 4 \<and>
     (\<forall>i<length ws. ws ! i =
        byte_at data (4 * i) + 256 * byte_at data (4 * i + 1)
          + 65536 * byte_at data (4 * i + 2) + 16777216 * byte_at data (4 * i + 3)) \<and>
     (serial self = None \<longrightarrow> write_block self addr data = (Inr (data = []), self)) \<and>
     (\<forall>p. serial self = Some p \<longrightarrow>
        (let k = length (takeWhile acknowledged (take (length ws) (script p)));
             m = min (Suc k) (length ws)
         in fst (write_block self addr data) =
              (if k = length ws then Inr True
               else if k < length (script p) \<and> write_fails (script p ! k)
                    then Inl SerialException
               else Inr False) \<and>
            (fst (write_block self addr data) = Inr True \<longleftrightarrow>
               length ws \<le> length (script p) \<and>
               list_all acknowledged (take (length ws) (script p))) \<and>
            serial (snd (write_block self addr data)) =
              Some (p\<lparr>written := written p @
                          map (\<lambda>j. write_command (addr + int j * 4) (ws ! j)) [0..<m],
                       script := drop m (script p)\<rparr>))))"
proof -
  let ?ws = "words_from 0 data"
  have A: "length ?ws = (length data + 3) div 4"
    by (rule length_words_from)
  have B: "\<forall>i<length ?ws. ?ws ! i =
        byte_at data (4 * i) + 256 * byte_at data (4 * i + 1)
          + 65536 * byte_at data (4 * i + 2) + 16777216 * byte_at data (4 * i + 3)"
    using nth_words_from by blast
  have C: "serial self = None \<longrightarrow> write_block self addr data = (Inr (data = []), self)"
    by (simp add: write_block_def write_words_closed words_from_empty)
  have D: "\<forall>p. serial self = Some p \<longrightarrow>
        (let k = length (takeWhile acknowledged (take (length ?ws) (script p)));
             m = min (Suc k) (length ?ws)
         in fst (write_block self addr data) =
              (if k = length ?ws then Inr True
               else if k < length (script p) \<and> write_fails (script p ! k)
                    then Inl SerialException
               else Inr False) \<and>
            (fst (write_block self addr data) = Inr True \<longleftrightarrow>
               length ?ws \<le> length (script p) \<and>
               list_all acknowledged (take (length ?ws) (script p))) \<and>
            serial (snd (write_block self addr data)) =
              Some (p\<lparr>written := written p @
                          map (\<lambda>j. write_command (addr + int j * 4) (?ws ! j)) [0..<m],
                       script := drop m (script p)\<rparr>))"
  proof (intro allI impI)
    fix p assume open_port: "serial self = Some p"
    let ?k = "length (takeWhile acknowledged (take (length ?ws) (script p)))"
    let ?m = "min (Suc ?k) (length ?ws)"
    from write_words_open [OF open_port, of ?ws addr 0]
    have r: "fst (write_block self addr data) =
              (if ?k = length ?ws then Inr True
               else if ?k < length (script p) \<and> write_fails (script p ! ?k)
                    then Inl SerialException
               else Inr False)"
      and s: "serial (snd (write_block self addr data)) =
              Some (p\<lparr>written := written p @ issued addr 0 ?ws ?m,
                       script := drop ?m (script p)\<rparr>)"
      by (simp_all add: write_block_def Let_def)
    have t: "fst (write_block self addr data) = Inr True \<longleftrightarrow>
               length ?ws \<le> length (script p) \<and>
               list_all acknowledged (take (length ?ws) (script p))"
      unfolding r by (simp add: takeWhile_full [symmetric])
    have i: "issued addr 0 ?ws ?m = map (\<lambda>j. write_command (addr + int j * 4) (?ws ! j)) [0..<?m]"
      by (simp add: issued_def)
    show "let k = ?k; m = min (Suc k) (length ?ws)
         in fst (write_block self addr data) =
              (if k = length ?ws then Inr True
               else if k < length (script p) \<and> write_fails (script p ! k)
                    then Inl SerialException
               else Inr False) \<and>
            (fst (write_block self addr data) = Inr True \<longleftrightarrow>
               length ?ws \<le> length (script p) \<and>
               list_all acknowledged (take (length ?ws) (script p))) \<and>
            serial (snd (write_block self addr data)) =
              Some (p\<lparr>written := written p @
                          map (\<lambda>j. write_command (addr + int j * 4) (?ws ! j)) [0..<m],
                       script := drop m (script p)\<rparr>)"
      unfolding Let_def using r t s [unfolded i] by blast
  qed
  from A B C D show ?thesis unfolding Let_def by blast
qed

subsection \<open>Two block writes\<close>

lemma ack_ok: "acknowledged (reply t ''OK'')"
  by (simp add: acknowledged_def reply_def startswith_def contains_def sublist_Cons_right)

lemma nack_err: "\<not> acknowledged (reply t ''ERR'')"
  by (simp add: acknowledged_def reply_def startswith_def contains_def sublist_Cons_right)

lemma replicate_numeral: "replicate (numeral k) x = x # replicate (pred_numeral k) x"
  by (simp add: numeral_eq_Suc)

lemma words5: "words_from 0 [1, 2, 3, 4, 5] = [67305985, 5]"
  by (simp add: words_from.simps [of _ "[1, 2, 3, 4, 5]"] pad4_def replicate_numeral)

lemma words13:
  "words_from 0 [1, 2, 3, 4, 5, 6, 7, 8, 9, 10, 11, 12, 13] = [67305985, 134678021, 202050057, 13]"
  by (simp add: words_from.simps [of _ "[1, 2, 3, 4, 5, 6, 7, 8, 9, 10, 11, 12, 13]"] pad4_def replicate_numeral)

lemma cmds:
  "write_command 0x40000000 67305985 = ''dbg w 40000000 04030201'' @ CRLF"
  "write_command 0x40000004 5 = ''dbg w 40000004 00000005'' @ CRLF"
  "write_command 0x40000004 134678021 = ''dbg w 40000004 08070605'' @ CRLF"
  "write_command 0x40000008 202050057 = ''dbg w 40000008 0c0b0a09'' @ CRLF"
  by (simp_all add: write_command_def fmt_08x_def zfill_def hex_digit_def replicate_numeral)

text \<open>
  Five bytes make two words; both writes are acknowledged. Thirteen bytes make four words;
  the third write is answered \<open>ERR\<close>, the result is \<open>False\<close> and the fourth word is
  never written.
\<close>

theorem write_block_words_witness:
  "fst (write_block block_console 0x40000000 [1, 2, 3, 4, 5]) = Inr True \<and>
   commands_written (snd (write_block block_console 0x40000000 [1, 2, 3, 4, 5]))
     = [''dbg w 40000000 04030201'' @ CRLF, ''dbg w 40000004 00000005'' @ CRLF] \<and>
   fst (write_block block_console 0x40000000 [1, 2, 3, 4, 5, 6, 7, 8, 9, 10, 11, 12, 13])
     = Inr False \<and>
   commands_written
       (snd (write_block block_console 0x40000000 [1, 2, 3, 4, 5, 6, 7, 8, 9, 10, 11, 12, 13]))
     = [''dbg w 40000000 04030201'' @ CRLF, ''dbg w 40000004 08070605'' @ CRLF,
        ''dbg w 40000008 0c0b0a09'' @ CRLF]"
proof -
  let ?p = "\<lparr>written = [],
       script = [reply 0 ''OK'', reply 100 ''OK'', reply 200 ''ERR'', reply 300 ''OK'']\<rparr>"
  have sp: "serial block_console = Some ?p"
    by (simp add: block_console_def)
  have nf: "\<not> write_fails (reply 200 ''ERR'')"
    by (simp add: reply_def)
  have up: "[0..<2] = [0, 1]" "[0..<3] = [0, 1, 2]"
    by (simp_all add: upt_rec)
  from write_block_words [of "[1, 2, 3, 4, 5]" block_console "0x40000000"] sp
  have a: "fst (write_block block_console 0x40000000 [1, 2, 3, 4, 5]) = Inr True"
    and b: "serial (snd (write_block block_console 0x40000000 [1, 2, 3, 4, 5])) =
      Some \<lparr>written = [''dbg w 40000000 04030201'' @ CRLF, ''dbg w 40000004 00000005'' @ CRLF],
         script = [reply 200 ''ERR'', reply 300 ''OK'']\<rparr>"
    by (simp_all add: Let_def words5 ack_ok up cmds)
  from write_block_words [of "[1, 2, 3, 4, 5, 6, 7, 8, 9, 10, 11, 12, 13]" block_console "0x40000000"] sp
  have c: "fst (write_block block_console 0x40000000 [1, 2, 3, 4, 5, 6, 7, 8, 9, 10, 11, 12, 13])
             = Inr False"
    and d: "serial (snd (write_block block_console 0x40000000
                [1, 2, 3, 4, 5, 6, 7, 8, 9, 10, 11, 12, 13])) =
      Some \<lparr>written = [''dbg w 40000000 04030201'' @ CRLF, ''dbg w 40000004 08070605'' @ CRLF,
              ''dbg w 40000008 0c0b0a09'' @ CRLF],
         script = [reply 300 ''OK'']\<rparr>"
    by (simp_all add: Let_def words13 ack_ok nack_err nf up cmds)
  from a b c d show ?thesis
    by (simp add: commands_written_def)
qed


section \<open>Properties of the test runner\<close>

lemma run_tests_append:
  "run_tests cl ml (xs @ ys) s = run_tests cl ml ys (run_tests cl ml xs s)"
  by (induction xs arbitrary: s) (auto split: prod.splits sum.splits)

lemma run_tests_other_names:
  "n \<notin> name ` set ts \<Longrightarrow> results (run_tests cl ml ts s) n = results s n"
  by (induction ts arbitrary: s) (auto split: prod.splits sum.splits)

lemma run_tests_tests: "tests (run_tests cl ml ts s) = tests s"
  by (induction ts arbitrary: s) (auto split: prod.splits sum.splits)

lemma run_tests_registry:
  "run_tests cl ml ts \<lparr>console = c, tests = xs, results = r\<rparr>
     = (run_tests cl ml ts \<lparr>console = c, tests = ys, results = r\<rparr>)\<lparr>tests := xs\<rparr>"
  by (induction ts arbitrary: c r) (auto split: prod.splits sum.splits)

lemma run_tests_irrelevant_tests:
  "run_tests cl ml ts (s\<lparr>tests := xs\<rparr>) = (run_tests cl ml ts s)\<lparr>tests := xs\<rparr>"
  by (cases s) (simp add: run_tests_registry [where xs = xs])

lemma run_tests_gated:
  "layer_required test > cl \<Longrightarrow>
   run_tests cl ml (pre @ test # post) s =
     run_tests cl ml post
       ((run_tests cl ml pre s)\<lparr>results := (results (run_tests cl ml pre s))(name test \<mapsto> SKIP)\<rparr>)"
  by (simp add: run_tests_append)

text \<open>
  C1. Let the layer query at the start of \<open>run_all\<close> return \<open>current_layer\<close>, and let
  \<open>test\<close> be a registered test, at any position of the registry, whose
  \<open>layer_required\<close> is greater. Then the run is: the tests before it, the single update
  that records \<open>SKIP\<close> under the name of \<open>test\<close> (the console is not touched and the
  test function is not applied), the tests after it. The whole outcome of \<open>run_all\<close>,
  results and console, is the same whatever function the test carries; and unless a later
  test of the same name overwrites the entry, the returned mapping gives \<open>SKIP\<close> for it.
\<close>

theorem run_all_gates:
  assumes "get_layer int16 (console self) = (Inr current_layer, c)"
    and "tests self = pre @ test # post"
    and "layer_required test > current_layer"
  shows "(let s1 = run_tests current_layer min_layer pre (self\<lparr>console := c\<rparr>);
              s2 = s1\<lparr>results := (results s1)(name test \<mapsto> SKIP)\<rparr>;
              s3 = run_tests current_layer min_layer post s2
          in run_all int16 self min_layer = (Inr (results s3), s3)) \<and>
         (\<forall>f. fst (run_all int16 (self\<lparr>tests := pre @ test\<lparr>test_fn := f\<rparr> # post\<rparr>) min_layer)
                = fst (run_all int16 self min_layer) \<and>
              console (snd (run_all int16 (self\<lparr>tests := pre @ test\<lparr>test_fn := f\<rparr> # post\<rparr>)
                              min_layer))
                = console (snd (run_all int16 self min_layer))) \<and>
         (name test \<notin> name ` set post \<longrightarrow>
            returned (run_all int16 self min_layer) (name test) = Some SKIP)"
proof (intro conjI allI impI)
  let ?s0 = "self\<lparr>console := c\<rparr>"
  let ?s1 = "run_tests current_layer min_layer pre ?s0"
  let ?s2 = "?s1\<lparr>results := (results ?s1)(name test \<mapsto> SKIP)\<rparr>"
  let ?s3 = "run_tests current_layer min_layer post ?s2"
  have run: "run_all int16 self min_layer = (Inr (results ?s3), ?s3)"
    using assms by (simp add: run_all_def Let_def run_tests_gated)
  show "let s1 = run_tests current_layer min_layer pre (self\<lparr>console := c\<rparr>);
            s2 = s1\<lparr>results := (results s1)(name test \<mapsto> SKIP)\<rparr>;
            s3 = run_tests current_layer min_layer post s2
        in run_all int16 self min_layer = (Inr (results s3), s3)"
    using run by (simp add: Let_def)
  {
    fix f
    let ?self' = "self\<lparr>tests := pre @ test\<lparr>test_fn := f\<rparr> # post\<rparr>"
    let ?ts' = "pre @ test\<lparr>test_fn := f\<rparr> # post"
    have g: "layer_required (test\<lparr>test_fn := f\<rparr>) > current_layer"
      using assms(3) by simp
    have e: "?self'\<lparr>console := c\<rparr> = ?s0\<lparr>tests := ?ts'\<rparr>"
      by (cases self) simp
    have r1: "run_all int16 ?self' min_layer =
            (Inr (results (run_tests current_layer min_layer ?ts' (?self'\<lparr>console := c\<rparr>))),
             run_tests current_layer min_layer ?ts' (?self'\<lparr>console := c\<rparr>))"
      using assms(1) by (simp add: run_all_def Let_def)
    have "run_tests current_layer min_layer ?ts' (?self'\<lparr>console := c\<rparr>)
            = ?s3\<lparr>tests := ?ts'\<rparr>"
      unfolding e by (simp add: run_tests_irrelevant_tests run_tests_gated [OF g])
    with r1 have run': "run_all int16 ?self' min_layer
                          = (Inr (results (?s3\<lparr>tests := ?ts'\<rparr>)), ?s3\<lparr>tests := ?ts'\<rparr>)"
      by simp
    show "fst (run_all int16 ?self' min_layer) = fst (run_all int16 self min_layer)"
      by (simp add: run run')
    show "console (snd (run_all int16 ?self' min_layer))
            = console (snd (run_all int16 self min_layer))"
      by (simp add: run run')
  }
  assume "name test \<notin> name ` set post"
  then have "results ?s3 (name test) = results ?s2 (name test)"
    by (rule run_tests_other_names)
  then show "returned (run_all int16 self min_layer) (name test) = Some SKIP"
    by (simp add: run returned_def)
qed

subsection \<open>A run at layer 5\<close>

lemmas console_defs = get_layer_def read_memory_def command_def send_def reply_def
  next_exchange_def startswith_def demo_int16_def fmt_08x_def zfill_def hex_digit_def CRLF_def

lemma layer5_query1: "get_layer demo_int16 layer5_console = (Inr 5, layer5_console1)"
  by (simp add: console_defs layer5_console_def layer5_console1_def)

lemma layer5_pll: "test_pll_locked demo_int16 layer5_console1 = (Inr PASS, layer5_console2)"
  by (simp add: test_pll_locked_def console_defs layer5_console1_def layer5_console2_def)





text \<open>
  At layer 5 the test \<open>fdc_ready\<close>, which requires layer 7, is recorded as \<open>SKIP\<close>, and
  the port has seen the layer query and the read of \<open>pll_locked\<close> only: the read of
  address \<open>0x44100000\<close> that \<open>test_fdc_ready\<close> would issue was never written.
\<close>

theorem run_all_gates_witness:
  "returned (run_all demo_int16 (demo_runner layer5_console) 0) ''fdc_ready'' = Some SKIP \<and>
   commands_written (console (snd (run_all demo_int16 (demo_runner layer5_console) 0)))
     = [''dbg r 44a80074'' @ CRLF, ''dbg r 40020000'' @ CRLF] \<and>
   fst (run_all demo_int16
          ((demo_runner layer5_console)
             \<lparr>tests := [pll_locked] @ fdc_ready\<lparr>test_fn := test_pll_locked demo_int16\<rparr> # []\<rparr>) 0)
     = fst (run_all demo_int16 (demo_runner layer5_console) 0)"
proof -
  have a: "get_layer demo_int16 (console (demo_runner layer5_console)) = (Inr 5, layer5_console1)"
    by (simp add: demo_runner_def layer5_query1)
  have b: "tests (demo_runner layer5_console) = [pll_locked] @ fdc_ready # []"
    by (simp add: demo_runner_def)
  have c: "layer_required fdc_ready > 5"
    by (simp add: fdc_ready_def)
  note g = run_all_gates [OF a b c, of 0]
  from g have skip: "returned (run_all demo_int16 (demo_runner layer5_console) 0) (name fdc_ready)
                       = Some SKIP"
    by simp
  from g have run: "run_all demo_int16 (demo_runner layer5_console) 0 =
      (let s1 = run_tests 5 0 [pll_locked] ((demo_runner layer5_console)\<lparr>console := layer5_console1\<rparr>);
           s2 = s1\<lparr>results := (results s1)(name fdc_ready \<mapsto> SKIP)\<rparr>
       in (Inr (results s2), s2))"
    by (simp add: Let_def)
  have "console (snd (run_all demo_int16 (demo_runner layer5_console) 0)) = layer5_console2"
    unfolding run by (simp add: Let_def demo_runner_def pll_locked_def layer5_pll)
  then have log: "commands_written (console (snd (run_all demo_int16 (demo_runner layer5_console) 0)))
                    = [''dbg r 44a80074'' @ CRLF, ''dbg r 40020000'' @ CRLF]"
    by (simp add: commands_written_def layer5_console2_def)
  from g have indep: "fst (run_all demo_int16
          ((demo_runner layer5_console)
             \<lparr>tests := [pll_locked] @ fdc_ready\<lparr>test_fn := test_pll_locked demo_int16\<rparr> # []\<rparr>) 0)
     = fst (run_all demo_int16 (demo_runner layer5_console) 0)"
    by blast
  from skip log indep show ?thesis by (simp add: fdc_ready_def)
qed


subsection \<open>The results mapping across runs\<close>









section \<open>Properties of the change detection\<close>

lemma dict_set_keys:
  "map fst (dict_set d k v) = (if k \<in> fst ` set d then map fst d else map fst d @ [k])"
  by (induction d k v rule: dict_set.induct) auto

lemma dict_set_distinct: "distinct (map fst d) \<Longrightarrow> distinct (map fst (dict_set d k v))"
  by (simp add: dict_set_keys)

lemma fold_scan_distinct:
  "distinct (map fst d) \<Longrightarrow> distinct (map fst (fold (scan_file T) fs d))"
  by (induction fs arbitrary: d) (simp_all add: scan_file_def dict_set_distinct)

lemma scan_distinct: "distinct (map fst (scan_rtl_modules T fs))"
  by (simp add: scan_rtl_modules_def fold_scan_distinct)

lemma filter_keys_member:
  assumes "distinct (map fst d)"
  shows "n \<in> set (map fst (filter (\<lambda>(k, v). Q k v) d)) \<longleftrightarrow> (\<exists>v. map_of d n = Some v \<and> Q n v)"
proof -
  have "n \<in> set (map fst (filter (\<lambda>(k, v). Q k v) d)) \<longleftrightarrow> (\<exists>v. (n, v) \<in> set d \<and> Q n v)"
    by force
  then show ?thesis
    by (simp add: map_of_eq_Some_iff [OF assms])
qed

lemma filter_keys_empty:
  assumes "distinct (map fst d)"
  shows "map fst (filter (\<lambda>(k, v). Q k v) d) = [] \<longleftrightarrow> (\<forall>k v. map_of d k = Some v \<longrightarrow> \<not> Q k v)"
proof -
  have "map fst (filter (\<lambda>(k, v). Q k v) d) = [] \<longleftrightarrow>
          set (map fst (filter (\<lambda>(k, v). Q k v) d)) = {}"
    by (simp only: set_empty)
  also have "\<dots> \<longleftrightarrow> (\<forall>n. n \<notin> set (map fst (filter (\<lambda>(k, v). Q k v) d)))"
    by (simp only: all_not_in_conv)
  also have "\<dots> \<longleftrightarrow> (\<forall>k v. map_of d k = Some v \<longrightarrow> \<not> Q k v)"
    unfolding filter_keys_member [OF assms] by blast
  finally show ?thesis .
qed

lemma changed_loaded:
  "load_cache cf = Inr prev \<Longrightarrow>
   get_changed_modules modules cf =
     Inr (map fst (filter (\<lambda>(n, m). prev n = None \<or> prev n \<noteq> Some (hash m)) modules))"
  by (simp add: get_changed_modules_def)

lemma changed_iff:
  assumes "distinct (map fst modules)" and "load_cache cf = Inr prev"
    and "get_changed_modules modules cf = Inr changed"
  shows "n \<in> set changed \<longleftrightarrow>
           (\<exists>m. map_of modules n = Some m \<and> (prev n = None \<or> prev n \<noteq> Some (hash m)))"
proof -
  from assms(2,3) have "changed =
      map fst (filter (\<lambda>(n, m). prev n = None \<or> prev n \<noteq> Some (hash m)) modules)"
    by (simp add: changed_loaded)
  then show ?thesis
    by (simp only: filter_keys_member [OF assms(1)])
qed

lemma changed_nil_iff:
  assumes "distinct (map fst modules)" and "load_cache cf = Inr prev"
    and "get_changed_modules modules cf = Inr changed"
  shows "changed = [] \<longleftrightarrow> (\<forall>n m. map_of modules n = Some m \<longrightarrow> prev n = Some (hash m))"
proof -
  from assms(2,3) have "changed =
      map fst (filter (\<lambda>(n, m). prev n = None \<or> prev n \<noteq> Some (hash m)) modules)"
    by (simp add: changed_loaded)
  then have "changed = [] \<longleftrightarrow>
      (\<forall>n m. map_of modules n = Some m \<longrightarrow> \<not> (prev n = None \<or> prev n \<noteq> Some (hash m)))"
    by (simp only: filter_keys_empty [OF assms(1)])
  also have "\<dots> \<longleftrightarrow> (\<forall>n m. map_of modules n = Some m \<longrightarrow> prev n = Some (hash m))"
    by auto
  finally show ?thesis .
qed

text \<open>
  C3. Let \<open>modules\<close> be a module dictionary (its keys are distinct) and \<open>prev\<close> the
  mapping that the cache file holds (the empty mapping when the file is absent). Then
  \<open>get_changed_modules\<close> returns a list that contains a name exactly when the name is a
  key of \<open>modules\<close> and is absent from \<open>prev\<close> or cached with another hash. The list is
  empty exactly when every module's hash equals its cached hash. A name that is no key of
  \<open>modules\<close>, such as a deleted module still in the cache, is never in the list. For a
  second dictionary \<open>modules'\<close>, in whatever order it was built: when it gives every name
  the same hash, the same names are reported; when it differs from \<open>modules\<close> at the one
  name \<open>x\<close> only, the membership of every other name is the same, a module \<open>x\<close> that
  was up to date and now has another hash enters the list, and so does a module \<open>x\<close>
  that is new to both the scan and the cache.
\<close>

theorem get_changed_modules_spec:
  assumes "distinct (map fst modules)" and "distinct (map fst modules')"
    and "load_cache cf = Inr prev"
  shows "\<exists>changed changed'.
     get_changed_modules modules cf = Inr changed \<and>
     get_changed_modules modules' cf = Inr changed' \<and>
     (\<forall>n. n \<in> set changed \<longleftrightarrow>
          (\<exists>m. map_of modules n = Some m \<and> (prev n = None \<or> prev n \<noteq> Some (hash m)))) \<and>
     (changed = [] \<longleftrightarrow> (\<forall>n m. map_of modules n = Some m \<longrightarrow> prev n = Some (hash m))) \<and>
     (\<forall>n. map_of modules n = None \<longrightarrow> n \<notin> set changed) \<and>
     ((\<forall>n. map_option hash (map_of modules' n) = map_option hash (map_of modules n))
        \<longrightarrow> set changed' = set changed) \<and>
     (\<forall>x. (\<forall>n. n \<noteq> x \<longrightarrow>
               map_option hash (map_of modules' n) = map_option hash (map_of modules n)) \<longrightarrow>
          (\<forall>n. n \<noteq> x \<longrightarrow> (n \<in> set changed' \<longleftrightarrow> n \<in> set changed)) \<and>
          (\<forall>m m'. map_of modules x = Some m \<and> prev x = Some (hash m) \<and>
                   map_of modules' x = Some m' \<and> hash m' \<noteq> hash m
                   \<longrightarrow> x \<notin> set changed \<and> x \<in> set changed') \<and>
          (\<forall>m'. map_of modules x = None \<and> prev x = None \<and> map_of modules' x = Some m'
                   \<longrightarrow> x \<notin> set changed \<and> x \<in> set changed'))"
proof -
  obtain changed changed' where
    c: "get_changed_modules modules cf = Inr changed" and
    c': "get_changed_modules modules' cf = Inr changed'"
    using assms(3) by (simp add: changed_loaded)
  note mem = changed_iff [OF assms(1) assms(3) c]
  note mem' = changed_iff [OF assms(2) assms(3) c']
  have same: "n \<in> set changed' \<longleftrightarrow> n \<in> set changed"
    if "map_option hash (map_of modules' n) = map_option hash (map_of modules n)" for n
  proof (cases "map_of modules n")
    case None
    with that have "map_of modules' n = None" by simp
    with None show ?thesis by (simp add: mem mem')
  next
    case (Some m)
    with that obtain m' where "map_of modules' n = Some m'" and "hash m' = hash m"
      by auto
    with Some show ?thesis by (simp add: mem mem')
  qed
  have A: "\<forall>n. n \<in> set changed \<longleftrightarrow>
          (\<exists>m. map_of modules n = Some m \<and> (prev n = None \<or> prev n \<noteq> Some (hash m)))"
    using mem by blast
  have B: "changed = [] \<longleftrightarrow> (\<forall>n m. map_of modules n = Some m \<longrightarrow> prev n = Some (hash m))"
    by (rule changed_nil_iff [OF assms(1) assms(3) c])
  have C: "\<forall>n. map_of modules n = None \<longrightarrow> n \<notin> set changed"
    by (simp add: mem)
  have D: "(\<forall>n. map_option hash (map_of modules' n) = map_option hash (map_of modules n))
        \<longrightarrow> set changed' = set changed"
    using same by blast
  have E: "\<forall>x. (\<forall>n. n \<noteq> x \<longrightarrow>
               map_option hash (map_of modules' n) = map_option hash (map_of modules n)) \<longrightarrow>
          (\<forall>n. n \<noteq> x \<longrightarrow> (n \<in> set changed' \<longleftrightarrow> n \<in> set changed)) \<and>
          (\<forall>m m'. map_of modules x = Some m \<and> prev x = Some (hash m) \<and>
                   map_of modules' x = Some m' \<and> hash m' \<noteq> hash m
                   \<longrightarrow> x \<notin> set changed \<and> x \<in> set changed') \<and>
          (\<forall>m'. map_of modules x = None \<and> prev x = None \<and> map_of modules' x = Some m'
                   \<longrightarrow> x \<notin> set changed \<and> x \<in> set changed')"
  proof (intro allI impI conjI)
    fix x n
    assume "\<forall>n. n \<noteq> x \<longrightarrow>
               map_option hash (map_of modules' n) = map_option hash (map_of modules n)"
      and "n \<noteq> x"
    then show "n \<in> set changed' \<longleftrightarrow> n \<in> set changed" using same by blast
  next
    fix x m m'
    assume a: "map_of modules x = Some m \<and> prev x = Some (hash m) \<and>
                   map_of modules' x = Some m' \<and> hash m' \<noteq> hash m"
    then have 1: "map_of modules x = Some m" and 2: "prev x = Some (hash m)"
      and 3: "map_of modules' x = Some m'" and 4: "hash m' \<noteq> hash m"
      by blast+
    show "x \<notin> set changed"
      unfolding mem [of x] using 1 2 by simp
    show "x \<in> set changed'"
      unfolding mem' [of x] using 2 3 4 [symmetric] by simp
  next
    fix x m'
    assume "map_of modules x = None \<and> prev x = None \<and> map_of modules' x = Some m'"
    then show "x \<notin> set changed" and "x \<in> set changed'"
      by (simp_all add: mem [of x] mem' [of x])
  qed
  show ?thesis
    by (rule exI [of _ changed], rule exI [of _ changed'], intro conjI)
       (fact c c' A B C D E)+
qed

subsection \<open>A concrete scan\<close>

lemma demo_scan:
  "scan_rtl_modules demo_tools demo_tree =
     [(''top'', \<lparr>RTLModule.name = ''top'', path = ''rtl/top.v'', dependencies = [], hash = ''t1''\<rparr>),
      (''uart'', \<lparr>RTLModule.name = ''uart'', path = ''rtl/uart.v'', dependencies = [], hash = ''u1''\<rparr>),
      (''fifo'', \<lparr>RTLModule.name = ''fifo'', path = ''rtl/fifo.sv'', dependencies = [], hash = ''f1''\<rparr>)]"
  by (simp add: scan_rtl_modules_def scan_file_def get_module_hash_def demo_tools_def demo_tree_def)

lemma demo_scan_edited:
  "scan_rtl_modules demo_tools demo_tree_edited =
     [(''uart'', \<lparr>RTLModule.name = ''uart'', path = ''rtl/uart.v'', dependencies = [], hash = ''u1''\<rparr>),
      (''top'', \<lparr>RTLModule.name = ''top'', path = ''rtl/top.v'', dependencies = [], hash = ''t2''\<rparr>),
      (''fifo'', \<lparr>RTLModule.name = ''fifo'', path = ''rtl/fifo.sv'', dependencies = [], hash = ''f1''\<rparr>)]"
  by (simp add: scan_rtl_modules_def scan_file_def get_module_hash_def demo_tools_def
        demo_tree_edited_def)

text \<open>
  In the concrete tree \<open>uart\<close> (stale hash) and \<open>fifo\<close> (not cached) are reported,
  \<open>top\<close> (up to date) and the deleted \<open>gone\<close> are not; after the edit of \<open>top.v\<close>,
  scanned in another order, \<open>top\<close> is reported and nothing else changes.
\<close>

theorem get_changed_modules_spec_witness:
  "\<exists>changed changed'.
     get_changed_modules (scan_rtl_modules demo_tools demo_tree) (Stored demo_cache) = Inr changed \<and>
     get_changed_modules (scan_rtl_modules demo_tools demo_tree_edited) (Stored demo_cache)
       = Inr changed' \<and>
     ''uart'' \<in> set changed \<and> ''fifo'' \<in> set changed \<and> ''top'' \<notin> set changed \<and>
     ''gone'' \<notin> set changed \<and> changed \<noteq> [] \<and>
     ''top'' \<in> set changed' \<and> (''uart'' \<in> set changed' \<longleftrightarrow> ''uart'' \<in> set changed) \<and>
     (''fifo'' \<in> set changed' \<longleftrightarrow> ''fifo'' \<in> set changed)"
proof -
  let ?ms = "scan_rtl_modules demo_tools demo_tree"
  let ?ms' = "scan_rtl_modules demo_tools demo_tree_edited"
  have l: "load_cache (Stored demo_cache) = Inr demo_cache"
    by (simp add: load_cache_def)
  from get_changed_modules_spec [OF scan_distinct scan_distinct l,
      of demo_tools demo_tree demo_tools demo_tree_edited]
  obtain changed changed' where
    c: "get_changed_modules ?ms (Stored demo_cache) = Inr changed" and
    c': "get_changed_modules ?ms' (Stored demo_cache) = Inr changed'" and
    mem: "\<forall>n. n \<in> set changed \<longleftrightarrow>
          (\<exists>m. map_of ?ms n = Some m \<and> (demo_cache n = None \<or> demo_cache n \<noteq> Some (hash m)))" and
    nil: "changed = [] \<longleftrightarrow> (\<forall>n m. map_of ?ms n = Some m \<longrightarrow> demo_cache n = Some (hash m))" and
    del: "\<forall>n. map_of ?ms n = None \<longrightarrow> n \<notin> set changed" and
    one: "\<forall>x. (\<forall>n. n \<noteq> x \<longrightarrow>
               map_option hash (map_of ?ms' n) = map_option hash (map_of ?ms n)) \<longrightarrow>
          (\<forall>n. n \<noteq> x \<longrightarrow> (n \<in> set changed' \<longleftrightarrow> n \<in> set changed)) \<and>
          (\<forall>m m'. map_of ?ms x = Some m \<and> demo_cache x = Some (hash m) \<and>
                   map_of ?ms' x = Some m' \<and> hash m' \<noteq> hash m
                   \<longrightarrow> x \<notin> set changed \<and> x \<in> set changed') \<and>
          (\<forall>m'. map_of ?ms x = None \<and> demo_cache x = None \<and> map_of ?ms' x = Some m'
                   \<longrightarrow> x \<notin> set changed \<and> x \<in> set changed')"
    by (elim exE conjE) (rule that)
  have uart: "''uart'' \<in> set changed" and fifo: "''fifo'' \<in> set changed"
    and top: "''top'' \<notin> set changed"
    by (simp_all add: mem demo_scan demo_cache_def)
  have gone: "''gone'' \<notin> set changed"
    using del by (simp add: demo_scan)
  from uart have ne: "changed \<noteq> []" by auto
  have others: "\<forall>n. n \<noteq> ''top'' \<longrightarrow>
      map_option hash (map_of ?ms' n) = map_option hash (map_of ?ms n)"
    by (simp add: demo_scan demo_scan_edited)
  with one have keep: "\<forall>n. n \<noteq> ''top'' \<longrightarrow> (n \<in> set changed' \<longleftrightarrow> n \<in> set changed)"
    and enter: "\<forall>m m'. map_of ?ms ''top'' = Some m \<and> demo_cache ''top'' = Some (hash m) \<and>
                   map_of ?ms' ''top'' = Some m' \<and> hash m' \<noteq> hash m
                   \<longrightarrow> ''top'' \<notin> set changed \<and> ''top'' \<in> set changed'"
    by blast+
  from enter have top': "''top'' \<in> set changed'"
    by (simp add: demo_scan demo_scan_edited demo_cache_def)
  from keep have u: "''uart'' \<in> set changed' \<longleftrightarrow> ''uart'' \<in> set changed"
    and f: "''fifo'' \<in> set changed' \<longleftrightarrow> ''fifo'' \<in> set changed"
    by simp_all
  from c c' uart fifo top gone ne top' u f show ?thesis by blast
qed

subsection \<open>The cache across a build\<close>










section \<open>Properties of the background build\<close>





subsection \<open>A call of start\_build while a build is in flight\<close>

lemma step_length: "length (threads s) \<le> length (threads (step e s))"
  by (cases e) (auto simp: start_build_def worker_begin_def worker_finish_def split: outcome.splits)

lemma step_dead:
  "t < length (threads s) \<Longrightarrow> \<not> is_alive s t \<Longrightarrow> \<not> is_alive (step e s) t"
  by (cases e)
     (auto simp: is_alive_def start_build_def worker_begin_def worker_finish_def nth_append
        nth_list_update split: outcome.splits)

lemma step_in_flight:
  assumes "build_thread s = Some t" and "is_alive s t"
  shows "build_thread (step e s) = Some t \<and> length (threads (step e s)) = length (threads s)"
proof -
  have "is_building s" using assms by (simp add: is_building_def)
  then show ?thesis
    using assms(1)
    by (cases e) (auto simp: start_build_def worker_begin_def worker_finish_def split: outcome.splits)
qed

lemma run_length: "length (threads s) \<le> length (threads (run evs s))"
  unfolding run_def by (induction evs arbitrary: s) (auto intro: order_trans step_length)

lemma run_dead:
  "t < length (threads s) \<Longrightarrow> \<not> is_alive s t \<Longrightarrow> \<not> is_alive (run evs s) t"
proof (induction evs arbitrary: s)
  case Nil
  then show ?case by (simp add: run_def)
next
  case (Cons e evs)
  have r: "run (e # evs) s = run evs (step e s)" by (simp add: run_def)
  from Cons.prems have d: "\<not> is_alive (step e s) t" by (rule step_dead)
  from Cons.prems(1) step_length [of s e] have lt: "t < length (threads (step e s))"
    by linarith
  from Cons.IH [OF lt d] show ?case by (simp add: r)
qed

lemma run_in_flight:
  "build_thread s = Some t \<Longrightarrow> t < length (threads s) \<Longrightarrow> is_alive (run evs s) t \<Longrightarrow>
   build_thread (run evs s) = Some t \<and> length (threads (run evs s)) = length (threads s)"
proof (induction evs arbitrary: s)
  case Nil
  then show ?case by (simp add: run_def)
next
  case (Cons e evs)
  have r: "run (e # evs) s = run evs (step e s)" by (simp add: run_def)
  have alive: "is_alive s t"
    using run_dead [OF Cons.prems(2), of "e # evs"] Cons.prems(3) by blast
  from step_in_flight [OF Cons.prems(1) alive, of e]
  have b: "build_thread (step e s) = Some t" and l: "length (threads (step e s)) = length (threads s)"
    by simp_all
  from Cons.prems(2) l have lt: "t < length (threads (step e s))" by simp
  from Cons.prems(3) have "is_alive (run evs (step e s)) t" by (simp add: r)
  from Cons.IH [OF b lt this] l show ?case by (simp add: r)
qed

lemma step_single_worker: "single_worker s \<Longrightarrow> single_worker (step e s)"
proof (cases e)
  case StartBuild
  assume inv: "single_worker s"
  show ?thesis
  proof (cases "is_building s")
    case True
    with inv StartBuild show ?thesis
      by (simp add: single_worker_def start_build_def is_alive_def)
  next
    case False
    have none: "\<not> is_alive s i" for i
    proof
      assume a: "is_alive s i"
      with inv have "build_thread s = Some i" by (simp add: single_worker_def)
      with a False show False by (simp add: is_building_def)
    qed
    have "is_alive (start_build s) i \<longrightarrow> length (threads s) = i" for i
      using none [of i] False
      by (auto simp: start_build_def is_alive_def nth_append split: if_splits)
    with False StartBuild show ?thesis
      by (simp add: single_worker_def start_build_def)
  qed
next
  case (WorkerBegin t)
  assume inv: "single_worker s"
  have "is_alive (worker_begin t s) i \<longrightarrow> is_alive s i" for i
    by (auto simp: worker_begin_def is_alive_def nth_list_update split: if_splits)
  moreover have "build_thread (worker_begin t s) = build_thread s"
    by (simp add: worker_begin_def)
  ultimately show ?thesis
    using inv WorkerBegin by (simp add: single_worker_def)
next
  case (WorkerFinish t out)
  assume inv: "single_worker s"
  have "is_alive (worker_finish t out s) i \<longrightarrow> is_alive s i" for i
    by (cases out) (auto simp: worker_finish_def is_alive_def nth_list_update split: if_splits)
  moreover have "build_thread (worker_finish t out s) = build_thread s"
    by (cases out) (simp_all add: worker_finish_def)
  ultimately show ?thesis
    using inv WorkerFinish by (simp add: single_worker_def)
qed

lemma run_single_worker: "single_worker s \<Longrightarrow> single_worker (run evs s)"
  unfolding run_def by (induction evs arbitrary: s) (simp_all add: step_single_worker)

lemma init_single_worker: "single_worker init"
  by (simp add: single_worker_def init_def is_alive_def)

text \<open>
  C9. Take any history of the builder after which no build is in flight, a call of
  \<open>start_build\<close> (which then starts worker \<open>t\<close>), and any further events after which
  worker \<open>t\<close> is still alive. A call of \<open>start_build\<close> at that point only prints the
  warning: the completion signal keeps its value, the list of threads is the same, it
  holds exactly one thread more than before the first call, \<open>build_thread\<close> still refers
  to worker \<open>t\<close>, and worker \<open>t\<close> is the only thread alive.
\<close>

theorem start_build_in_flight:
  assumes "\<not> is_building (run evs0 init)"
    and "is_alive (run evs1 (start_build (run evs0 init))) (length (threads (run evs0 init)))"
  shows "(let s0 = run evs0 init; t = length (threads s0); s2 = run evs1 (start_build s0)
          in start_build s2 = s2\<lparr>printed := printed s2 @ [''RTL build already in progress'']\<rparr> \<and>
             bitstream_ready (start_build s2) = bitstream_ready s2 \<and>
             threads (start_build s2) = threads s2 \<and>
             length (threads (start_build s2)) = Suc t \<and>
             build_thread (start_build s2) = Some t \<and>
             (\<forall>i. is_alive (start_build s2) i \<longrightarrow> i = t))"
proof -
  let ?s0 = "run evs0 init"
  let ?t = "length (threads ?s0)"
  let ?s1 = "start_build ?s0"
  let ?s2 = "run evs1 ?s1"
  have s1: "build_thread ?s1 = Some ?t" "?t < length (threads ?s1)"
    "length (threads ?s1) = Suc ?t"
    using assms(1) by (simp_all add: start_build_def)
  from run_in_flight [OF s1(1) s1(2) assms(2)]
  have b: "build_thread ?s2 = Some ?t" and l: "length (threads ?s2) = Suc ?t"
    by (simp_all add: s1(3))
  from b assms(2) have building: "is_building ?s2"
    by (simp add: is_building_def)
  then have noop: "start_build ?s2 = ?s2\<lparr>printed := printed ?s2 @ [''RTL build already in progress'']\<rparr>"
    by (simp add: start_build_def)
  have "single_worker ?s2"
    by (intro run_single_worker) (simp add: step_single_worker [of _ StartBuild, simplified]
          run_single_worker init_single_worker)
  then have one: "\<forall>i. is_alive (start_build ?s2) i \<longrightarrow> i = ?t"
    using b by (auto simp: single_worker_def noop is_alive_def)
  show ?thesis
    unfolding Let_def using noop one b l by simp
qed

text \<open>
  Two calls in succession on a new builder, the worker having begun in between: the second
  call adds the warning only, one worker exists, and its successful end sets the signal.
\<close>

theorem start_build_in_flight_witness:
  "start_build (run [WorkerBegin 0] (start_build init))
     = (run [WorkerBegin 0] (start_build init))\<lparr>printed := [''RTL build already in progress'']\<rparr> \<and>
   threads (start_build (run [WorkerBegin 0] (start_build init))) = [Working] \<and>
   bitstream_ready (run [StartBuild, WorkerBegin 0, StartBuild, WorkerFinish 0 (Exit0 ''abc'')] init)"
proof -
  have a: "\<not> is_building (run [] init)"
    by (simp add: run_def init_def is_building_def)
  have s: "run [WorkerBegin 0] (start_build init) =
             \<lparr>build_thread = Some 0, build_status = ''running'', last_hash = None,
              bitstream_ready = False, threads = [Working], printed = []\<rparr>"
    by (simp add: run_def init_def start_build_def is_building_def worker_begin_def)
  have b: "is_alive (run [WorkerBegin 0] (start_build (run [] init))) (length (threads (run [] init)))"
    by (simp add: s run_def [of "[]"] init_def [THEN arg_cong, of threads] is_alive_def)
  from start_build_in_flight [OF a b]
  have n: "start_build (run [WorkerBegin 0] (start_build init))
     = (run [WorkerBegin 0] (start_build init))\<lparr>printed := [''RTL build already in progress'']\<rparr>"
    by (simp add: Let_def run_def [of "[]"] s)
  then have t: "threads (start_build (run [WorkerBegin 0] (start_build init))) = [Working]"
    by (simp add: s)
  have "run [StartBuild, WorkerBegin 0, StartBuild, WorkerFinish 0 (Exit0 ''abc'')] init
          = worker_finish 0 (Exit0 ''abc'') (start_build (run [WorkerBegin 0] (start_build init)))"
    by (simp add: run_def)
  then have r: "bitstream_ready
      (run [StartBuild, WorkerBegin 0, StartBuild, WorkerFinish 0 (Exit0 ''abc'')] init)"
    by (simp add: n) (simp add: s worker_finish_def)
  from n t r show ?thesis by blast
qed


end
